theory Spec2Isabelle
  imports Complex_Main "HOL-Library.Word"
begin

section \<open>The script execution service of \<^verbatim>\<open>server/routes.ts\<close>\<close>

text \<open>
  The server runs a submitted script in a \<^verbatim>\<open>python3\<close> child process, accumulates the
  two output streams under a length cap, arms a deadline timer and settles a promise with an
  \<^verbatim>\<open>ExecuteResponse\<close>. The callbacks that \<^verbatim>\<open>executePython\<close> registers are
  modelled as handlers on the closure's variables; the Node.js event loop runs one callback
  at a time, so an invocation is a sequence of events applied to that state.
\<close>

subsection \<open>JavaScript strings\<close>

text \<open>
  A JavaScript string is a sequence of UTF-16 code units, and \<^verbatim>\<open>length\<close>,
  \<^verbatim>\<open>slice\<close> and \<^verbatim>\<open>trim\<close> work on code units.
\<close>

type_synonym js_char = "16 word"
type_synonym js_string = "js_char list"

definition lit :: "string \<Rightarrow> js_string" where
  \<comment> \<open>a string literal of the source, all of whose characters are ASCII\<close>
  "lit s = map (\<lambda>c. of_nat (of_char c)) s"

definition is_js_whitespace :: "js_char \<Rightarrow> bool" where
  \<comment> \<open>WhiteSpace and LineTerminator of ECMAScript, the code units that \<^verbatim>\<open>trim\<close> strips\<close>
  "is_js_whitespace c \<longleftrightarrow>
     c \<in> set [0x0009, 0x000A, 0x000B, 0x000C, 0x000D, 0x0020, 0x00A0, 0x1680,
              0x2000, 0x2001, 0x2002, 0x2003, 0x2004, 0x2005, 0x2006, 0x2007,
              0x2008, 0x2009, 0x200A, 0x2028, 0x2029, 0x202F, 0x205F, 0x3000, 0xFEFF]"

definition trim :: "js_string \<Rightarrow> js_string" where
  \<comment> \<open>\<^verbatim>\<open>String.prototype.trim\<close>\<close>
  "trim s = rev (dropWhile is_js_whitespace (rev (dropWhile is_js_whitespace s)))"

definition or_string :: "js_string \<Rightarrow> js_string \<Rightarrow> js_string" where
  \<comment> \<open>\<^verbatim>\<open>a || b\<close> on strings: the empty string is the only falsy one\<close>
  "or_string a b = (if a = [] then b else a)"

definition or_undefined :: "js_string \<Rightarrow> js_string option" where
  \<comment> \<open>\<^verbatim>\<open>a || undefined\<close>\<close>
  "or_undefined a = (if a = [] then None else Some a)"

definition digit :: "nat \<Rightarrow> js_char" where
  "digit d = of_nat (48 + d)"

fun show_nat :: "nat \<Rightarrow> js_string" where
  "show_nat n = (if n < 10 then [digit n] else show_nat (n div 10) @ [digit (n mod 10)])"

declare show_nat.simps [simp del]

definition show_int :: "int \<Rightarrow> js_string" where
  \<comment> \<open>Number-to-string conversion of a template literal, on integer values\<close>
  "show_int i = (if i < 0 then lit ''-'' @ show_nat (nat (- i)) else show_nat (nat i))"

definition show_code :: "int option \<Rightarrow> js_string" where
  \<comment> \<open>\<^verbatim>\<open>${code}\<close>: the exit code is a number, or \<^verbatim>\<open>null\<close> when a signal ended the process\<close>
  "show_code code = (case code of None \<Rightarrow> lit ''null'' | Some n \<Rightarrow> show_int n)"

definition read_nat :: "js_string \<Rightarrow> nat" where
  \<comment> \<open>the number that a string of decimal digits denotes\<close>
  "read_nat s = foldl (\<lambda>a c. 10 * a + (unat c - 48)) 0 s"

definition read_int :: "js_string \<Rightarrow> int" where
  \<comment> \<open>the same, with an optional minus sign in front\<close>
  "read_int s = (case s of [] \<Rightarrow> 0 | c # cs \<Rightarrow> if c = 0x2D then - int (read_nat cs) else int (read_nat s))"

subsection \<open>Constants and the result type\<close>

definition EXECUTION_TIMEOUT :: int where
  "EXECUTION_TIMEOUT = 30000"

definition MAX_OUTPUT_LENGTH :: nat where
  "MAX_OUTPUT_LENGTH = 10000"

definition truncation_marker :: js_string where
  \<comment> \<open>\<^verbatim>\<open>"\n... (output truncated)"\<close>\<close>
  "truncation_marker = lit (CHR 0x0A # ''... (output truncated)'')"

record ExecuteResponse =
  success :: bool
  output_str :: "js_string option"    \<comment> \<open>the field \<^verbatim>\<open>output\<close>\<close>
  error :: "js_string option"
  executionTime :: "int option"

subsection \<open>Output accumulation\<close>

definition on_data :: "js_string \<Rightarrow> js_string \<Rightarrow> js_string" where
  \<comment> \<open>the body of both \<^verbatim>\<open>"data"\<close> listeners: append, then cut when over the cap\<close>
  "on_data buf chunk =
     (let buf' = buf @ chunk
      in if length buf' > MAX_OUTPUT_LENGTH
         then take MAX_OUTPUT_LENGTH buf' @ truncation_marker
         else buf')"

subsection \<open>One invocation of \<^verbatim>\<open>executePython\<close>\<close>

type_synonym env = "js_string \<rightharpoonup> js_string"

record spawn_options =
  command :: js_string
  args :: "js_string list"
  timeout_opt :: int
  child_env :: env

definition spawn_python :: "js_string \<Rightarrow> env \<Rightarrow> spawn_options" where
  \<comment> \<open>the arguments of the call to \<^verbatim>\<open>spawn\<close>; the object spread copies
      \<^verbatim>\<open>process.env\<close> and the later key overrides\<close>
  "spawn_python script penv =
     \<lparr>command = lit ''python3'',
      args = [lit ''-c'', script],
      timeout_opt = EXECUTION_TIMEOUT,
      child_env = penv(lit ''PYTHONIOENCODING'' \<mapsto> lit ''utf-8'')\<rparr>"

datatype signal = SIGTERM

text \<open>
  The variables that the closure of one call owns: the start timestamp, the two buffers,
  the child process (its spawn options and the signals that this code sends to it with
  \<^verbatim>\<open>process.kill\<close>), the timer handle (its delay, and whether it is pending) and the
  promise (settled with a value or not). The \<^verbatim>\<open>timeout\<close> option of \<^verbatim>\<open>spawn\<close> is
  passed on to Node.js, which may signal the child on its own account; such a signal is
  not a call of this code and is not listed in \<^verbatim>\<open>kills\<close>.
\<close>

record invocation =
  child :: spawn_options
  startTime :: int
  stdout :: js_string
  stderr :: js_string
  timer_delay :: int
  timer_pending :: bool
  kills :: "signal list"
  settled :: "ExecuteResponse option"

definition executePython :: "js_string \<Rightarrow> env \<Rightarrow> int \<Rightarrow> invocation" where
  \<comment> \<open>the synchronous part of the call: \<^verbatim>\<open>now\<close> is the reading of
      \<^verbatim>\<open>Date.now()\<close>, \<^verbatim>\<open>penv\<close> is \<^verbatim>\<open>process.env\<close>\<close>
  "executePython script penv now =
     \<lparr>child = spawn_python script penv,
      startTime = now,
      stdout = [],
      stderr = [],
      timer_delay = EXECUTION_TIMEOUT,
      timer_pending = True,
      kills = [],
      settled = None\<rparr>"

definition resolve :: "ExecuteResponse \<Rightarrow> invocation \<Rightarrow> invocation" where
  \<comment> \<open>a promise keeps the value of the first call of its \<^verbatim>\<open>resolve\<close>\<close>
  "resolve r st = (case settled st of None \<Rightarrow> st\<lparr>settled := Some r\<rparr> | Some _ \<Rightarrow> st)"

definition clearTimeout :: "invocation \<Rightarrow> invocation" where
  "clearTimeout st = st\<lparr>timer_pending := False\<rparr>"

definition kill :: "signal \<Rightarrow> invocation \<Rightarrow> invocation" where
  "kill sig st = st\<lparr>kills := kills st @ [sig]\<rparr>"

definition timeout_message :: js_string where
  \<comment> \<open>the quotient is exact, so the number prints as an integer\<close>
  "timeout_message =
     lit ''Execution timed out after '' @ show_int (EXECUTION_TIMEOUT div 1000) @ lit '' seconds''"

definition on_timeout :: "int \<Rightarrow> invocation \<Rightarrow> invocation" where
  "on_timeout now st =
     resolve \<lparr>success = False, output_str = None, error = Some timeout_message,
              executionTime = Some (now - startTime st)\<rparr>
       (kill SIGTERM st)"

definition on_close :: "int option \<Rightarrow> int \<Rightarrow> invocation \<Rightarrow> invocation" where
  "on_close code now st =
     (let st' = clearTimeout st;
          elapsed = now - startTime st'
      in if code = Some 0
         then resolve \<lparr>success = True,
                       output_str = Some (or_string (trim (stdout st')) (lit ''(no output)'')),
                       error = None,
                       executionTime = Some elapsed\<rparr> st'
         else resolve \<lparr>success = False,
                       output_str = or_undefined (trim (stdout st')),
                       error = Some (or_string (trim (stderr st'))
                                       (lit ''Process exited with code '' @ show_code code)),
                       executionTime = Some elapsed\<rparr> st')"

definition on_error :: "js_string \<Rightarrow> int \<Rightarrow> invocation \<Rightarrow> invocation" where
  "on_error message now st =
     (let st' = clearTimeout st
      in resolve \<lparr>success = False, output_str = None,
                  error = Some (lit ''Failed to execute: '' @ message),
                  executionTime = Some (now - startTime st')\<rparr> st')"

text \<open>
  What the event loop delivers to one invocation. \<^verbatim>\<open>Close\<close>, \<^verbatim>\<open>ProcError\<close>
  and \<^verbatim>\<open>TimerFired\<close> carry the reading of \<^verbatim>\<open>Date.now()\<close> in their callback,
  which is the wall clock and may be set forwards or backwards while the process runs.
  A timer runs its callback at most once, not at all after \<^verbatim>\<open>clearTimeout\<close>, and
  never before its delay has passed on the event loop's own clock: \<^verbatim>\<open>TimerFired late now\<close>
  is the callback running \<^verbatim>\<open>late\<close> milliseconds after the delay has passed.
\<close>

datatype event =
    StdoutData js_string
  | StderrData js_string
  | Close "int option" int
  | ProcError js_string int
  | TimerFired nat int

fun step :: "event \<Rightarrow> invocation \<Rightarrow> invocation" where
  "step (StdoutData chunk) st = st\<lparr>stdout := on_data (stdout st) chunk\<rparr>"
| "step (StderrData chunk) st = st\<lparr>stderr := on_data (stderr st) chunk\<rparr>"
| "step (Close code now) st = on_close code now st"
| "step (ProcError message now) st = on_error message now st"
| "step (TimerFired late now) st =
     (if timer_pending st then on_timeout now (st\<lparr>timer_pending := False\<rparr>) else st)"

definition run :: "invocation \<Rightarrow> event list \<Rightarrow> invocation" where
  "run st es = fold step es st"

definition timer_elapsed :: "invocation \<Rightarrow> nat \<Rightarrow> int" where
  \<comment> \<open>the time on the event loop's clock from \<^verbatim>\<open>setTimeout\<close> to a callback that runs
      \<^verbatim>\<open>late\<close> milliseconds after the delay\<close>
  "timer_elapsed st late = timer_delay st + int late"

definition timer_inv :: "invocation \<Rightarrow> bool" where
  \<comment> \<open>the timer is pending exactly as long as the promise is not settled\<close>
  "timer_inv st \<longleftrightarrow> (timer_pending st \<longleftrightarrow> settled st = None)"

definition event_time :: "event \<Rightarrow> int option" where
  \<comment> \<open>the clock reading an event's callback takes, if it takes one\<close>
  "event_time e =
     (case e of Close _ now \<Rightarrow> Some now | ProcError _ now \<Rightarrow> Some now
              | TimerFired _ now \<Rightarrow> Some now | _ \<Rightarrow> None)"

fun is_data :: "event \<Rightarrow> bool" where
  "is_data (StdoutData _) = True"
| "is_data (StderrData _) = True"
| "is_data _ = False"

fun stdout_chunks :: "event list \<Rightarrow> js_string list" where
  "stdout_chunks [] = []"
| "stdout_chunks (StdoutData chunk # es) = chunk # stdout_chunks es"
| "stdout_chunks (_ # es) = stdout_chunks es"

fun stderr_chunks :: "event list \<Rightarrow> js_string list" where
  "stderr_chunks [] = []"
| "stderr_chunks (StderrData chunk # es) = chunk # stderr_chunks es"
| "stderr_chunks (_ # es) = stderr_chunks es"

definition capped :: "js_string \<Rightarrow> js_string" where
  \<comment> \<open>a stream's whole text under the cap: as it is, or cut with the marker\<close>
  "capped text =
     (if length text > MAX_OUTPUT_LENGTH
      then take MAX_OUTPUT_LENGTH text @ truncation_marker
      else text)"

subsection \<open>The request handler\<close>




datatype js_error = TypeError




record http_response =
  status :: nat
  json :: ExecuteResponse






datatype served =
    Sent http_response
  | Pending
  | Failed js_error




section \<open>Properties\<close>

subsection \<open>Strings and buffers\<close>

lemma lit_Nil [simp]: "lit [] = []" by (simp add: lit_def)
lemma lit_Cons [simp]: "lit (c # cs) = of_nat (of_char c) # lit cs" by (simp add: lit_def)
lemma length_lit [simp]: "length (lit s) = length s" by (simp add: lit_def)

lemma length_truncation_marker: "length truncation_marker = 23"
  by (simp add: truncation_marker_def)

lemma on_data_capped: "on_data (capped t) chunk = capped (t @ chunk)"
  by (auto simp: on_data_def capped_def Let_def length_truncation_marker MAX_OUTPUT_LENGTH_def)

lemma capped_Nil [simp]: "capped [] = []"
  by (simp add: capped_def)

subsection \<open>Printing numbers\<close>

lemma unat_digit: "d < 10 \<Longrightarrow> unat (digit d) = 48 + d"
  by (simp add: digit_def unat_of_nat del: of_nat_add)

lemma read_nat_snoc: "read_nat (s @ [c]) = 10 * read_nat s + (unat c - 48)"
  by (simp add: read_nat_def)

lemma read_nat_show_nat: "read_nat (show_nat n) = n"
proof (induction n rule: show_nat.induct)
  case (1 n)
  show ?case
  proof (cases "n < 10")
    case True
    then show ?thesis
      by (subst show_nat.simps) (simp add: read_nat_def unat_digit)
  next
    case False
    then have "read_nat (show_nat (n div 10)) = n div 10"
      using 1 by simp
    with False show ?thesis
      by (subst show_nat.simps) (simp add: read_nat_snoc unat_digit)
  qed
qed

lemma show_nat_not_Nil: "show_nat n \<noteq> []"
  by (subst show_nat.simps) simp

lemma hd_show_nat_digit: "hd (show_nat n) \<noteq> 0x2D"
proof (induction n rule: show_nat.induct)
  case (1 n)
  show ?case
  proof (cases "n < 10")
    case True
    then have "unat (hd (show_nat n)) = 48 + n"
      by (subst show_nat.simps) (simp add: unat_digit)
    then show ?thesis using True by auto
  next
    case False
    then show ?thesis
      using 1 by (subst show_nat.simps) (simp add: show_nat_not_Nil)
  qed
qed

lemma read_int_show_nat: "read_int (show_nat n) = int n"
proof (cases "show_nat n")
  case Nil
  then show ?thesis by (simp add: show_nat_not_Nil)
next
  case (Cons c cs)
  then have "c \<noteq> 0x2D"
    using hd_show_nat_digit [of n] by simp
  then have "read_int (c # cs) = int (read_nat (c # cs))"
    by (simp add: read_int_def)
  then show ?thesis
    using Cons read_nat_show_nat [of n] by simp
qed

lemma read_int_show_int: "read_int (show_int i) = i"
  by (simp add: show_int_def read_int_show_nat) (simp add: read_int_def read_nat_show_nat)

subsection \<open>What one step leaves alone\<close>

lemma resolve_fields [simp]:
  "startTime (resolve r st) = startTime st"
  "stdout (resolve r st) = stdout st"
  "stderr (resolve r st) = stderr st"
  "timer_delay (resolve r st) = timer_delay st"
  "timer_pending (resolve r st) = timer_pending st"
  "kills (resolve r st) = kills st"
  "child (resolve r st) = child st"
  by (simp_all add: resolve_def split: option.splits)

lemma settled_resolve:
  "settled (resolve r st) = (case settled st of None \<Rightarrow> Some r | Some v \<Rightarrow> Some v)"
  by (simp add: resolve_def split: option.splits)

lemma step_startTime [simp]: "startTime (step e st) = startTime st"
  by (cases e) (simp_all add: on_close_def on_error_def on_timeout_def clearTimeout_def kill_def Let_def)

lemma step_child [simp]: "child (step e st) = child st"
  by (cases e) (simp_all add: on_close_def on_error_def on_timeout_def clearTimeout_def kill_def Let_def)

lemma run_Nil [simp]: "run st [] = st"
  by (simp add: run_def)

lemma run_Cons [simp]: "run st (e # es) = run (step e st) es"
  by (simp add: run_def)

lemma run_append: "run st (es @ es') = run (run st es) es'"
  by (simp add: run_def)

lemma run_startTime [simp]: "startTime (run st es) = startTime st"
  by (induction es arbitrary: st) simp_all

lemma run_child [simp]: "child (run st es) = child st"
  by (induction es arbitrary: st) simp_all

lemma step_stdout:
  "stdout (step e st) = (case e of StdoutData chunk \<Rightarrow> on_data (stdout st) chunk | _ \<Rightarrow> stdout st)"
  by (cases e) (simp_all add: on_close_def on_error_def on_timeout_def clearTimeout_def kill_def Let_def)

lemma step_stderr:
  "stderr (step e st) = (case e of StderrData chunk \<Rightarrow> on_data (stderr st) chunk | _ \<Rightarrow> stderr st)"
  by (cases e) (simp_all add: on_close_def on_error_def on_timeout_def clearTimeout_def kill_def Let_def)

lemma stdout_chunks_Cons: "stdout_chunks (e # es) = stdout_chunks [e] @ stdout_chunks es"
  by (cases e) simp_all

lemma stderr_chunks_Cons: "stderr_chunks (e # es) = stderr_chunks [e] @ stderr_chunks es"
  by (cases e) simp_all

lemma step_stdout_capped:
  "stdout st = capped t \<Longrightarrow> stdout (step e st) = capped (t @ concat (stdout_chunks [e]))"
  by (cases e) (simp_all add: step_stdout on_data_capped del: step.simps)

lemma step_stderr_capped:
  "stderr st = capped t \<Longrightarrow> stderr (step e st) = capped (t @ concat (stderr_chunks [e]))"
  by (cases e) (simp_all add: step_stderr on_data_capped del: step.simps)

lemma run_stdout_capped:
  "stdout st = capped t \<Longrightarrow> stdout (run st es) = capped (t @ concat (stdout_chunks es))"
proof (induction es arbitrary: st t)
  case Nil
  then show ?case by simp
next
  case (Cons e es)
  have "stdout (run (step e st) es)
          = capped ((t @ concat (stdout_chunks [e])) @ concat (stdout_chunks es))"
    by (rule Cons.IH) (rule step_stdout_capped [OF Cons.prems])
  then show ?case
    by (simp add: stdout_chunks_Cons [of e es])
qed

lemma run_stderr_capped:
  "stderr st = capped t \<Longrightarrow> stderr (run st es) = capped (t @ concat (stderr_chunks es))"
proof (induction es arbitrary: st t)
  case Nil
  then show ?case by simp
next
  case (Cons e es)
  have "stderr (run (step e st) es)
          = capped ((t @ concat (stderr_chunks [e])) @ concat (stderr_chunks es))"
    by (rule Cons.IH) (rule step_stderr_capped [OF Cons.prems])
  then show ?case
    by (simp add: stderr_chunks_Cons [of e es])
qed

lemma executePython_fields [simp]:
  "child (executePython script penv now) = spawn_python script penv"
  "startTime (executePython script penv now) = now"
  "stdout (executePython script penv now) = []"
  "stderr (executePython script penv now) = []"
  "timer_delay (executePython script penv now) = EXECUTION_TIMEOUT"
  "timer_pending (executePython script penv now)"
  "kills (executePython script penv now) = []"
  "settled (executePython script penv now) = None"
  by (simp_all add: executePython_def)

lemma stdout_executePython:
  "stdout (run (executePython script penv start) es) = capped (concat (stdout_chunks es))"
  using run_stdout_capped [of "executePython script penv start" "[]" es] by simp

lemma stderr_executePython:
  "stderr (run (executePython script penv start) es) = capped (concat (stderr_chunks es))"
  using run_stderr_capped [of "executePython script penv start" "[]" es] by simp

subsection \<open>Timer and promise\<close>

lemma timer_inv_step: "timer_inv st \<Longrightarrow> timer_inv (step e st)"
  by (cases e)
     (auto simp: timer_inv_def on_close_def on_error_def on_timeout_def clearTimeout_def
        kill_def Let_def settled_resolve split: option.splits)

lemma timer_inv_run: "timer_inv st \<Longrightarrow> timer_inv (run st es)"
  by (induction es arbitrary: st) (simp_all add: timer_inv_step)

lemma timer_inv_executePython: "timer_inv (run (executePython script penv start) es)"
  by (rule timer_inv_run) (simp add: timer_inv_def)

lemma settled_step_keeps: "settled st = Some r \<Longrightarrow> settled (step e st) = Some r"
  by (cases e)
     (simp_all add: on_close_def on_error_def on_timeout_def clearTimeout_def
        kill_def Let_def settled_resolve)

lemma settled_run_keeps: "settled st = Some r \<Longrightarrow> settled (run st es) = Some r"
  by (induction es arbitrary: st) (simp_all add: settled_step_keeps)

lemma settled_step_data: "is_data e \<Longrightarrow> settled (step e st) = settled st"
  by (cases e) simp_all

lemma terminal_step_settles:
  "\<not> is_data e \<Longrightarrow> timer_inv st \<Longrightarrow> settled (step e st) \<noteq> None"
  by (cases e)
     (auto simp: timer_inv_def on_close_def on_error_def on_timeout_def clearTimeout_def
        kill_def Let_def settled_resolve split: option.splits)


lemma kills_step_pending: "timer_pending (step e st) \<Longrightarrow> kills (step e st) = kills st"
  by (cases e)
     (simp_all add: on_close_def on_error_def on_timeout_def clearTimeout_def kill_def Let_def
        split: if_splits)

lemma timer_off_step: "\<not> timer_pending st \<Longrightarrow> \<not> timer_pending (step e st)"
  by (cases e)
     (simp_all add: on_close_def on_error_def on_timeout_def clearTimeout_def kill_def Let_def)

lemma timer_off_run: "\<not> timer_pending st \<Longrightarrow> \<not> timer_pending (run st es)"
  by (induction es arbitrary: st) (simp_all add: timer_off_step)

lemma kills_run_pending: "timer_pending (run st es) \<Longrightarrow> kills (run st es) = kills st"
proof (induction es arbitrary: st)
  case Nil
  then show ?case by simp
next
  case (Cons e es)
  from Cons.prems have p: "timer_pending (run (step e st) es)"
    by simp
  then have "timer_pending (step e st)"
    using timer_off_run [of "step e st" es] by blast
  with Cons.IH [OF p] show ?case
    by (simp add: kills_step_pending)
qed

lemma run_data_settled: "list_all is_data ds \<Longrightarrow> settled (run st ds) = settled st"
  by (induction ds arbitrary: st) (simp_all add: settled_step_data)

lemma step_timer_delay [simp]: "timer_delay (step e st) = timer_delay st"
  by (cases e) (simp_all add: on_close_def on_error_def on_timeout_def clearTimeout_def kill_def Let_def)

lemma run_timer_delay [simp]: "timer_delay (run st es) = timer_delay st"
  by (induction es arbitrary: st) simp_all

lemma timeout_message_text: "timeout_message = lit ''Execution timed out after 30 seconds''"
  by (simp add: timeout_message_def EXECUTION_TIMEOUT_def show_int_def show_nat.simps digit_def)

lemma terminal_step_result:
  assumes "settled st = None"
      and "\<not> is_data e"
      and "settled (step e st) = Some r"
  shows "\<exists>now. event_time e = Some now
           \<and> executionTime r = Some (now - startTime st)
           \<and> (success r \<longrightarrow> error r = None \<and> output_str r \<noteq> None)
           \<and> (\<not> success r \<longrightarrow> error r \<noteq> None)"
  using assms
  by (cases e)
     (auto simp: event_time_def on_close_def on_error_def on_timeout_def
        clearTimeout_def kill_def Let_def settled_resolve split: if_splits)

lemma settled_first_terminal:
  assumes "settled (run (executePython script penv start) es) = Some r"
  shows "\<exists>ds e rest. es = ds @ e # rest \<and> list_all is_data ds \<and> \<not> is_data e
           \<and> settled (run (executePython script penv start) ds) = None
           \<and> settled (step e (run (executePython script penv start) ds)) = Some r"
proof -
  have "\<exists>e\<in>set es. \<not> is_data e"
  proof (rule ccontr)
    assume "\<not> (\<exists>e\<in>set es. \<not> is_data e)"
    then have "list_all is_data es"
      by (simp add: list_all_iff)
    then show False
      using assms by (simp add: run_data_settled)
  qed
  then obtain ds e rest where sp: "es = ds @ e # rest" "\<not> is_data e" "\<forall>d\<in>set ds. \<not> \<not> is_data d"
    using split_list_first_prop [of es "\<lambda>e. \<not> is_data e"] by blast
  then have d: "list_all is_data ds"
    by (simp add: list_all_iff)
  then have n: "settled (run (executePython script penv start) ds) = None"
    by (simp add: run_data_settled)
  obtain v where v: "settled (step e (run (executePython script penv start) ds)) = Some v"
    using terminal_step_settles [OF sp(2) timer_inv_executePython [of script penv start ds]]
    by auto
  then have "settled (run (executePython script penv start) es) = Some v"
    using sp(1) by (simp add: run_append settled_run_keeps)
  with assms have "v = r"
    by simp
  with sp d n v show ?thesis
    by blast
qed

subsection \<open>Trimming\<close>

lemma length_trim_le: "length (trim s) \<le> length s"
proof -
  have "length (trim s) \<le> length (rev (dropWhile is_js_whitespace s))"
    using length_dropWhile_le [of is_js_whitespace "rev (dropWhile is_js_whitespace s)"]
    by (simp add: trim_def)
  also have "\<dots> \<le> length s"
    using length_dropWhile_le [of is_js_whitespace s] by simp
  finally show ?thesis .
qed

lemma trim_id:
  assumes "s \<noteq> []" "\<not> is_js_whitespace (hd s)" "\<not> is_js_whitespace (last s)"
  shows "trim s = s"
proof -
  have "dropWhile is_js_whitespace s = s"
    using assms(2) by (simp add: dropWhile_eq_self_iff)
  moreover have "dropWhile is_js_whitespace (rev s) = rev s"
    using assms(1,3) by (simp add: dropWhile_eq_self_iff hd_rev)
  ultimately show ?thesis
    by (simp add: trim_def)
qed

lemma last_truncation_marker: "last truncation_marker = 0x29"
  by (simp add: truncation_marker_def)

lemma truncation_marker_not_Nil: "truncation_marker \<noteq> []"
  by (simp add: truncation_marker_def)

lemma paren_not_whitespace: "\<not> is_js_whitespace 0x29"
  by (simp add: is_js_whitespace_def)

lemma trim_marked_not_Nil: "trim (pre @ truncation_marker) \<noteq> []"
proof -
  have n: "\<not> is_js_whitespace (last (pre @ truncation_marker))"
    by (simp add: truncation_marker_not_Nil last_truncation_marker paren_not_whitespace)
  have "last (pre @ truncation_marker) \<in> set (pre @ truncation_marker)"
    by (rule last_in_set) (simp add: truncation_marker_not_Nil)
  with n have "dropWhile is_js_whitespace (pre @ truncation_marker) \<noteq> []"
    by (metis dropWhile_eq_Nil_conv)
  moreover have "last (dropWhile is_js_whitespace (pre @ truncation_marker))
                   = last (pre @ truncation_marker)"
    using n \<open>last (pre @ truncation_marker) \<in> set (pre @ truncation_marker)\<close>
    by (rule dropWhile_last [rotated])
  ultimately have "\<not> is_js_whitespace (hd (rev (dropWhile is_js_whitespace (pre @ truncation_marker))))"
    using n by (simp add: hd_rev)
  then have "dropWhile is_js_whitespace (rev (dropWhile is_js_whitespace (pre @ truncation_marker)))
      = rev (dropWhile is_js_whitespace (pre @ truncation_marker))"
    by (simp add: dropWhile_eq_self_iff)
  then show ?thesis
    using \<open>dropWhile is_js_whitespace (pre @ truncation_marker) \<noteq> []\<close>
    by (simp add: trim_def)
qed

lemma trim_marked_id:
  assumes "pre \<noteq> []" "\<not> is_js_whitespace (hd pre)"
  shows "trim (pre @ truncation_marker) = pre @ truncation_marker"
  by (rule trim_id)
     (use assms in \<open>simp_all add: truncation_marker_not_Nil last_truncation_marker paren_not_whitespace\<close>)

lemma trim_spaces_marker:
  "trim (replicate n 0x20 @ truncation_marker) = lit ''... (output truncated)''"
proof -
  have "dropWhile is_js_whitespace (replicate n 0x20 @ truncation_marker)
          = dropWhile is_js_whitespace truncation_marker"
    by (rule dropWhile_append2) (simp add: is_js_whitespace_def)
  also have "\<dots> = lit ''... (output truncated)''"
    by (simp add: truncation_marker_def is_js_whitespace_def)
  finally show ?thesis
    by (simp add: trim_def is_js_whitespace_def)
qed

lemma length_capped_le: "length (capped text) \<le> MAX_OUTPUT_LENGTH + length truncation_marker"
  by (simp add: capped_def)

lemma capped_over:
  "length text > MAX_OUTPUT_LENGTH \<Longrightarrow>
     capped text = take MAX_OUTPUT_LENGTH text @ truncation_marker"
  by (simp add: capped_def)

lemma on_data_truncated:
  "length text > MAX_OUTPUT_LENGTH \<Longrightarrow>
     on_data (take MAX_OUTPUT_LENGTH text @ truncation_marker) chunk
       = take MAX_OUTPUT_LENGTH text @ truncation_marker"
  by (simp add: on_data_def Let_def length_truncation_marker)

lemma close_output:
  assumes "settled st = None"
  shows "\<exists>r. settled (step (Close code now) st) = Some r
           \<and> output_str r = (if code = Some 0
                               then Some (or_string (trim (stdout st)) (lit ''(no output)''))
                               else or_undefined (trim (stdout st)))
           \<and> (code \<noteq> Some 0 \<longrightarrow>
                 error r = Some (or_string (trim (stderr st))
                                   (lit ''Process exited with code '' @ show_code code)))"
  using assms
  by (simp add: on_close_def clearTimeout_def Let_def settled_resolve)

subsection \<open>The request handler\<close>




section \<open>The claims\<close>

text \<open>
  Claim C10. Once a buffer holds the first 10,000 accumulated characters followed by the
  truncation marker, a further data event leaves it as it is: the listener appends the
  chunk, finds the length over the cap again and cuts back to the same string.
\<close>

theorem truncated_buffer_idempotent:
  assumes "length acc > MAX_OUTPUT_LENGTH"
  shows "on_data (take MAX_OUTPUT_LENGTH acc @ truncation_marker) chunk
           = take MAX_OUTPUT_LENGTH acc @ truncation_marker"
  using assms by (simp add: on_data_def Let_def length_truncation_marker)

theorem truncated_buffer_idempotent_witness:
  "length (replicate 10001 (0x61 :: js_char)) > MAX_OUTPUT_LENGTH \<and>
   on_data (take MAX_OUTPUT_LENGTH (replicate 10001 0x61) @ truncation_marker) (lit ''more'')
     = take MAX_OUTPUT_LENGTH (replicate 10001 0x61) @ truncation_marker"
proof -
  have h: "length (replicate 10001 (0x61 :: js_char)) > MAX_OUTPUT_LENGTH"
    by (simp add: MAX_OUTPUT_LENGTH_def)
  from h truncated_buffer_idempotent [OF h] show ?thesis by simp
qed

text \<open>
  Claim C9. The environment handed to the child is the server's environment with
  \<^verbatim>\<open>PYTHONIOENCODING\<close> set to \<^verbatim>\<open>utf-8\<close>; every other variable is passed on as it
  is, and the child's spawn options stay the same for the whole invocation.
\<close>

theorem child_environment:
  "child_env (child (executePython script penv now)) (lit ''PYTHONIOENCODING'') = Some (lit ''utf-8'')
   \<and> (\<forall>k. k \<noteq> lit ''PYTHONIOENCODING'' \<longrightarrow>
          child_env (child (executePython script penv now)) k = penv k)
   \<and> child (run (executePython script penv now) es) = child (executePython script penv now)"
  by (simp add: spawn_python_def)

theorem child_environment_witness:
  "lit ''PATH'' \<noteq> lit ''PYTHONIOENCODING'' \<and>
   child_env (child (executePython (lit ''print(1)'')
       [lit ''PATH'' \<mapsto> lit ''/usr/bin'', lit ''PYTHONIOENCODING'' \<mapsto> lit ''latin-1''] 0)) (lit ''PATH'')
     = Some (lit ''/usr/bin'')"
proof -
  have h: "lit ''PATH'' \<noteq> lit ''PYTHONIOENCODING''" by simp
  from child_environment [of "lit ''print(1)''"
      "[lit ''PATH'' \<mapsto> lit ''/usr/bin'', lit ''PYTHONIOENCODING'' \<mapsto> lit ''latin-1'']" 0 "[]",
      THEN conjunct2, THEN conjunct1, rule_format, OF h]
  show ?thesis using h by simp
qed

text \<open>
  Claim C1. When the process closes with exit code 0 while the promise is still pending,
  the promise settles with \<^verbatim>\<open>success: true\<close>, the trimmed stdout buffer as output, or
  \<^verbatim>\<open>"(no output)"\<close> when the trimmed buffer is empty, no error, and the time elapsed
  since the start. The stdout buffer is the capped concatenation of the chunks received.
\<close>

theorem close_zero_resolves_success:
  assumes "st = run (executePython script penv start) es"
      and "settled st = None"
  shows "settled (step (Close (Some 0) now) st) =
           Some \<lparr>success = True,
                 output_str = Some (if trim (stdout st) = [] then lit ''(no output)''
                                    else trim (stdout st)),
                 error = None,
                 executionTime = Some (now - start)\<rparr>
         \<and> stdout st = capped (concat (stdout_chunks es))"
  using assms
  by (simp add: on_close_def clearTimeout_def Let_def settled_resolve or_string_def
        stdout_executePython)

theorem close_zero_resolves_success_witness:
  "settled (run (executePython (lit ''print(42)'') Map.empty 1000) [StdoutData (lit ''42'' @ [0x0A])]) = None
   \<and> settled (step (Close (Some 0) 1250)
         (run (executePython (lit ''print(42)'') Map.empty 1000) [StdoutData (lit ''42'' @ [0x0A])]))
       = Some \<lparr>success = True, output_str = Some (lit ''42''), error = None,
               executionTime = Some 250\<rparr>"
proof -
  let ?st = "run (executePython (lit ''print(42)'') Map.empty 1000) [StdoutData (lit ''42'' @ [0x0A])]"
  have h: "settled ?st = None"
    by simp
  have b: "stdout ?st = lit ''42'' @ [0x0A]"
    by (simp add: on_data_def MAX_OUTPUT_LENGTH_def)
  have t: "trim (lit ''42'' @ [0x0A]) = lit ''42''"
    by (simp add: trim_def is_js_whitespace_def)
  from close_zero_resolves_success [OF refl h, of 1250] show ?thesis
    using h by (simp only: b t) simp
qed

text \<open>
  Claim C5. When the process closes with a nonzero exit code while the promise is still
  pending, the promise settles with \<^verbatim>\<open>success: false\<close>; output is the trimmed stdout
  buffer, absent when that is empty; error is the trimmed stderr buffer, or, when that is
  empty, \<^verbatim>\<open>"Process exited with code "\<close> followed by the decimal digits of the code.
\<close>

theorem close_nonzero_resolves_failure:
  assumes "st = run (executePython script penv start) es"
      and "settled st = None"
      and "n \<noteq> 0"
  shows "settled (step (Close (Some n) now) st) =
           Some \<lparr>success = False,
                 output_str = (if trim (stdout st) = [] then None else Some (trim (stdout st))),
                 error = Some (if trim (stderr st) = []
                               then lit ''Process exited with code '' @ show_int n
                               else trim (stderr st)),
                 executionTime = Some (now - start)\<rparr>
         \<and> read_int (show_int n) = n
         \<and> stdout st = capped (concat (stdout_chunks es))
         \<and> stderr st = capped (concat (stderr_chunks es))"
  using assms
  by (simp add: on_close_def clearTimeout_def Let_def settled_resolve or_string_def
        or_undefined_def show_code_def read_int_show_int stdout_executePython stderr_executePython)

theorem close_nonzero_resolves_failure_witness:
  "settled (run (executePython (lit ''exit(3)'') Map.empty 1000) []) = None
   \<and> (3::int) \<noteq> 0
   \<and> settled (step (Close (Some 3) 1040) (run (executePython (lit ''exit(3)'') Map.empty 1000) []))
       = Some \<lparr>success = False, output_str = None,
               error = Some (lit ''Process exited with code 3''),
               executionTime = Some 40\<rparr>"
proof -
  let ?st = "run (executePython (lit ''exit(3)'') Map.empty 1000) []"
  have h: "settled ?st = None"
    by simp
  have n: "(3::int) \<noteq> 0"
    by simp
  have t: "trim [] = []"
    by (simp add: trim_def)
  have d: "show_int 3 = lit ''3''"
    by (simp add: show_int_def show_nat.simps digit_def)
  from close_nonzero_resolves_failure [OF refl h n, of 1040] show ?thesis
    using h by (simp add: t d)
qed

text \<open>
  Claim C7. The promise keeps its first value whatever events follow; after any number of
  data events the first close, error or timer event settles it, and that event alone
  determines the result; and the timer is pending exactly while the promise is not
  settled, so no timer is left pending once a result exists.
\<close>

theorem settles_once:
  "(settled (run (executePython script penv start) es) = Some r \<longrightarrow>
      settled (run (executePython script penv start) (es @ es')) = Some r)
   \<and> (list_all is_data ds \<and> \<not> is_data e \<longrightarrow>
        settled (run (executePython script penv start) ds) = None
        \<and> settled (step e (run (executePython script penv start) ds)) \<noteq> None
        \<and> settled (run (executePython script penv start) (ds @ e # rest))
            = settled (step e (run (executePython script penv start) ds)))
   \<and> (timer_pending (run (executePython script penv start) es)
        \<longleftrightarrow> settled (run (executePython script penv start) es) = None)"
proof (intro conjI impI)
  assume "settled (run (executePython script penv start) es) = Some r"
  then show "settled (run (executePython script penv start) (es @ es')) = Some r"
    by (simp add: run_append settled_run_keeps)
next
  assume "list_all is_data ds \<and> \<not> is_data e"
  then show "settled (run (executePython script penv start) ds) = None"
    by (simp add: run_data_settled)
next
  assume a: "list_all is_data ds \<and> \<not> is_data e"
  then show "settled (step e (run (executePython script penv start) ds)) \<noteq> None"
    using terminal_step_settles [of e "run (executePython script penv start) ds"]
    by (simp add: timer_inv_executePython)
next
  assume a: "list_all is_data ds \<and> \<not> is_data e"
  then obtain v where "settled (step e (run (executePython script penv start) ds)) = Some v"
    using terminal_step_settles [of e "run (executePython script penv start) ds"]
    by (auto simp: timer_inv_executePython)
  then show "settled (run (executePython script penv start) (ds @ e # rest))
            = settled (step e (run (executePython script penv start) ds))"
    by (simp add: run_append settled_run_keeps)
next
  show "timer_pending (run (executePython script penv start) es)
        \<longleftrightarrow> settled (run (executePython script penv start) es) = None"
    using timer_inv_executePython [of script penv start es] by (simp add: timer_inv_def)
qed

theorem settles_once_witness:
  "settled (run (executePython (lit ''while True: pass'') Map.empty 1000) [TimerFired 0 31000])
     = Some \<lparr>success = False, output_str = None,
             error = Some (lit ''Execution timed out after 30 seconds''),
             executionTime = Some 30000\<rparr>
   \<and> settled (run (executePython (lit ''while True: pass'') Map.empty 1000)
        ([TimerFired 0 31000] @ [Close None 31004]))
     = Some \<lparr>success = False, output_str = None,
             error = Some (lit ''Execution timed out after 30 seconds''),
             executionTime = Some 30000\<rparr>
   \<and> list_all is_data [StdoutData (lit ''tick'')] \<and> \<not> is_data (TimerFired 0 31000)
   \<and> settled (run (executePython (lit ''while True: pass'') Map.empty 1000)
        ([StdoutData (lit ''tick'')] @ TimerFired 0 31000 # [Close None 31004]))
     = settled (step (TimerFired 0 31000)
         (run (executePython (lit ''while True: pass'') Map.empty 1000) [StdoutData (lit ''tick'')]))"
proof -
  have m: "timeout_message = lit ''Execution timed out after 30 seconds''"
    by (simp add: timeout_message_def EXECUTION_TIMEOUT_def show_int_def show_nat.simps digit_def)
  have a: "settled (run (executePython (lit ''while True: pass'') Map.empty 1000) [TimerFired 0 31000])
     = Some \<lparr>success = False, output_str = None,
             error = Some (lit ''Execution timed out after 30 seconds''),
             executionTime = Some 30000\<rparr>"
    by (simp add: on_timeout_def kill_def settled_resolve m)
  have b: "list_all is_data [StdoutData (lit ''tick'')] \<and> \<not> is_data (TimerFired 0 31000)"
    by simp
  note t = settles_once [of "lit ''while True: pass''" Map.empty 1000 "[TimerFired 0 31000]"
      "\<lparr>success = False, output_str = None,
             error = Some (lit ''Execution timed out after 30 seconds''),
             executionTime = Some 30000\<rparr>" "[Close None 31004]"
      "[StdoutData (lit ''tick'')]" "TimerFired 0 31000" "[Close None 31004]"]
  from t [THEN conjunct1, rule_format, OF a]
       t [THEN conjunct2, THEN conjunct1, rule_format, OF b] a b
  show ?thesis
    by (simp only: simp_thms)
qed

text \<open>
  Claim C3, as stated, fails. The elapsed time in the result is a difference of two
  readings of the wall clock, and the callback only sends a signal. Here the timer runs
  exactly 30,000 ms after it was set, the wall clock has been set back meanwhile, and the
  process ignores \<^verbatim>\<open>SIGTERM\<close>: the result carries the elapsed time -100, the process
  goes on writing and exits by itself later, and no further signal is sent.
\<close>

theorem deadline_counterexample:
  "timer_elapsed (executePython (lit ''import signal, time; signal.signal(15, signal.SIG_IGN); time.sleep(99)'') Map.empty 1000) 0
     = 30000
   \<and> settled (run (executePython (lit ''import signal, time; signal.signal(15, signal.SIG_IGN); time.sleep(99)'') Map.empty 1000)
        [TimerFired 0 900, StdoutData (lit ''still running''), Close (Some 0) 99000])
      = Some \<lparr>success = False, output_str = None,
              error = Some (lit ''Execution timed out after 30 seconds''),
              executionTime = Some (- 100)\<rparr>
   \<and> kills (run (executePython (lit ''import signal, time; signal.signal(15, signal.SIG_IGN); time.sleep(99)'') Map.empty 1000)
        [TimerFired 0 900, StdoutData (lit ''still running''), Close (Some 0) 99000])
      = [SIGTERM]
   \<and> stdout (run (executePython (lit ''import signal, time; signal.signal(15, signal.SIG_IGN); time.sleep(99)'') Map.empty 1000)
        [TimerFired 0 900, StdoutData (lit ''still running''), Close (Some 0) 99000])
      = lit ''still running''"
proof -
  have d: "on_data [] (lit ''still running'') = lit ''still running''"
    by (simp add: on_data_def MAX_OUTPUT_LENGTH_def)
  show ?thesis
    by (simp add: timer_elapsed_def EXECUTION_TIMEOUT_def on_timeout_def on_close_def kill_def
          clearTimeout_def Let_def settled_resolve timeout_message_text d del: lit_Cons)
qed

text \<open>
  Claim C3, amended. When the deadline timer runs its callback while it is still pending
  (neither the close nor the error listener has run), which is never sooner than
  30,000 ms after the call on the event loop's clock, the callback sends
  \<^verbatim>\<open>SIGTERM\<close> to the child once and the promise settles with \<^verbatim>\<open>success: false\<close>, the
  message that names the 30 seconds of the timeout, and as elapsed time the reading of
  \<^verbatim>\<open>Date.now()\<close> in the callback minus the reading at the call. That is the time the
  timer took, 30,000 ms plus its lateness, when the wall clock has advanced by as much.
\<close>

theorem deadline_fires:
  assumes "st = run (executePython script penv start) es"
      and "timer_pending st"
  shows "settled (step (TimerFired late now) st) =
           Some \<lparr>success = False, output_str = None,
                 error = Some (lit ''Execution timed out after 30 seconds''),
                 executionTime = Some (now - start)\<rparr>
         \<and> kills (step (TimerFired late now) st) = [SIGTERM]
         \<and> \<not> timer_pending (step (TimerFired late now) st)
         \<and> timer_elapsed st late = EXECUTION_TIMEOUT + int late
         \<and> EXECUTION_TIMEOUT \<le> timer_elapsed st late
         \<and> (now - start = timer_elapsed st late \<longrightarrow>
              settled (step (TimerFired late now) st) =
                Some \<lparr>success = False, output_str = None,
                      error = Some (lit ''Execution timed out after 30 seconds''),
                      executionTime = Some (EXECUTION_TIMEOUT + int late)\<rparr>)"
proof -
  have "timer_inv st"
    using assms(1) by (simp add: timer_inv_executePython)
  with assms(2) have s: "settled st = None"
    by (simp add: timer_inv_def)
  have k: "kills st = []"
    using kills_run_pending [of "executePython script penv start" es] assms by simp
  have e: "timer_elapsed st late = EXECUTION_TIMEOUT + int late"
    using assms(1) by (simp add: timer_elapsed_def)
  have r: "settled (step (TimerFired late now) st) =
           Some \<lparr>success = False, output_str = None,
                 error = Some (lit ''Execution timed out after 30 seconds''),
                 executionTime = Some (now - start)\<rparr>"
    using assms s by (simp add: on_timeout_def kill_def settled_resolve timeout_message_text)
  have k': "kills (step (TimerFired late now) st) = [SIGTERM]"
    using assms k by (simp add: on_timeout_def kill_def)
  have p: "\<not> timer_pending (step (TimerFired late now) st)"
    using assms by (simp add: on_timeout_def kill_def)
  show ?thesis
    using r k' p e by simp
qed

theorem deadline_fires_witness:
  "timer_pending (run (executePython (lit ''while True: pass'') Map.empty 1000) [StdoutData (lit ''tick'')])
   \<and> 31002 - 1000 = timer_elapsed
        (run (executePython (lit ''while True: pass'') Map.empty 1000) [StdoutData (lit ''tick'')]) 2
   \<and> settled (step (TimerFired 2 31002)
        (run (executePython (lit ''while True: pass'') Map.empty 1000) [StdoutData (lit ''tick'')]))
       = Some \<lparr>success = False, output_str = None,
               error = Some (lit ''Execution timed out after 30 seconds''),
               executionTime = Some 30002\<rparr>
   \<and> kills (step (TimerFired 2 31002)
        (run (executePython (lit ''while True: pass'') Map.empty 1000) [StdoutData (lit ''tick'')]))
       = [SIGTERM]"
proof -
  let ?st = "run (executePython (lit ''while True: pass'') Map.empty 1000) [StdoutData (lit ''tick'')]"
  have h: "timer_pending ?st"
    by simp
  have c: "31002 - 1000 = timer_elapsed ?st 2"
    by (simp add: timer_elapsed_def EXECUTION_TIMEOUT_def)
  from deadline_fires [OF refl h, of 2 31002] h c show ?thesis
    by (simp add: EXECUTION_TIMEOUT_def)
qed

text \<open>
  Claim C6, as stated, fails: when the wall clock reads lower in the close listener than
  it did at the call, the elapsed time in the result is negative.
\<close>

theorem settled_result_counterexample:
  "settled (run (executePython (lit ''print(1)'') Map.empty 1000)
      [StdoutData (lit ''1''), Close (Some 0) 900])
     = Some \<lparr>success = True, output_str = Some (lit ''1''), error = None,
             executionTime = Some (- 100)\<rparr>
   \<and> \<not> (0::int) \<le> - 100"
proof -
  have d: "on_data [] (lit ''1'') = lit ''1''"
    by (simp add: on_data_def MAX_OUTPUT_LENGTH_def)
  have t: "trim (lit ''1'') = lit ''1''"
    by (simp add: trim_def is_js_whitespace_def)
  show ?thesis
    by (simp add: on_close_def clearTimeout_def Let_def settled_resolve or_string_def d t
          del: lit_Cons) simp
qed

text \<open>
  Claim C6, amended. Whatever events an invocation receives, a settled result comes from
  the first close, error or timer event; it carries an elapsed time, the reading of
  \<^verbatim>\<open>Date.now()\<close> in that event's callback minus the reading at the call, which is
  non-negative exactly when the later reading is not below the earlier one; a successful
  result has no error and has an output, and a failed one has an error.
\<close>

theorem settled_result_invariant:
  assumes "settled (run (executePython script penv start) es) = Some r"
  shows "\<exists>ds e rest now.
           es = ds @ e # rest \<and> list_all is_data ds \<and> \<not> is_data e
           \<and> event_time e = Some now
           \<and> executionTime r = Some (now - start)
           \<and> ((\<exists>t. executionTime r = Some t \<and> 0 \<le> t) \<longleftrightarrow> start \<le> now)
           \<and> (success r \<longrightarrow> error r = None \<and> output_str r \<noteq> None)
           \<and> (\<not> success r \<longrightarrow> error r \<noteq> None)"
proof -
  from settled_first_terminal [OF assms] obtain ds e rest
    where sp: "es = ds @ e # rest" "list_all is_data ds" "\<not> is_data e"
      and n: "settled (run (executePython script penv start) ds) = None"
      and v: "settled (step e (run (executePython script penv start) ds)) = Some r"
    by blast
  from terminal_step_result [OF n sp(3) v] obtain now
    where t: "event_time e = Some now" "executionTime r = Some (now - start)"
      "success r \<longrightarrow> error r = None \<and> output_str r \<noteq> None"
      "\<not> success r \<longrightarrow> error r \<noteq> None"
    by auto
  have "(\<exists>t. executionTime r = Some t \<and> 0 \<le> t) \<longleftrightarrow> start \<le> now"
    using t(2) by auto
  with sp t show ?thesis
    by blast
qed

theorem settled_result_invariant_witness:
  "settled (run (executePython (lit ''print(1)'') Map.empty 1000) [Close (Some 0) 1250])
     = Some \<lparr>success = True, output_str = Some (lit ''(no output)''), error = None,
             executionTime = Some 250\<rparr>
   \<and> settled (run (executePython (lit ''print(1)'') Map.empty 1000) [ProcError (lit ''spawn python3 ENOENT'') 1002])
     = Some \<lparr>success = False, output_str = None,
             error = Some (lit ''Failed to execute: spawn python3 ENOENT''),
             executionTime = Some 2\<rparr>
   \<and> (\<exists>ds e rest now. [Close (Some 0) 1250] = ds @ e # rest \<and> event_time e = Some now
        \<and> Some (250::int) = Some (now - 1000))
   \<and> (\<exists>ds e rest now. [ProcError (lit ''spawn python3 ENOENT'') 1002] = ds @ e # rest
        \<and> event_time e = Some now \<and> Some (2::int) = Some (now - 1000))"
proof -
  have t: "trim [] = []"
    by (simp add: trim_def)
  have a: "settled (run (executePython (lit ''print(1)'') Map.empty 1000) [Close (Some 0) 1250])
     = Some \<lparr>success = True, output_str = Some (lit ''(no output)''), error = None,
             executionTime = Some 250\<rparr>"
    by (simp add: on_close_def clearTimeout_def Let_def settled_resolve or_string_def t)
  have c: "settled (run (executePython (lit ''print(1)'') Map.empty 1000) [ProcError (lit ''spawn python3 ENOENT'') 1002])
     = Some \<lparr>success = False, output_str = None,
             error = Some (lit ''Failed to execute: spawn python3 ENOENT''),
             executionTime = Some 2\<rparr>"
    by (simp add: on_error_def clearTimeout_def Let_def settled_resolve)
  from settled_result_invariant [OF a]
  have 1: "\<exists>ds e rest now. [Close (Some 0) 1250] = ds @ e # rest \<and> event_time e = Some now
        \<and> Some (250::int) = Some (now - 1000)"
    by (simp only: ExecuteResponse.simps) blast
  from settled_result_invariant [OF c]
  have 2: "\<exists>ds e rest now. [ProcError (lit ''spawn python3 ENOENT'') 1002] = ds @ e # rest
        \<and> event_time e = Some now \<and> Some (2::int) = Some (now - 1000)"
    by (simp only: ExecuteResponse.simps) blast
  from a c 1 2 show ?thesis
    by (simp only: simp_thms)
qed




text \<open>
  Claim C2, as stated, fails: a process that writes 10,001 spaces and exits with code 0
  fills the buffer with 10,000 spaces and the marker, and the output field is the trimmed
  buffer, 22 characters long, not 10,023.
\<close>

theorem output_length_counterexample:
  "length (concat (stdout_chunks [StdoutData (replicate 10001 0x20)])) > MAX_OUTPUT_LENGTH
   \<and> settled (run (executePython (lit ''import sys; sys.stdout.write(chr(32) * 10001)'') Map.empty 0)
        [StdoutData (replicate 10001 0x20), Close (Some 0) 90])
      = Some \<lparr>success = True, output_str = Some (lit ''... (output truncated)''), error = None,
              executionTime = Some 90\<rparr>
   \<and> length (lit ''... (output truncated)'') \<noteq> MAX_OUTPUT_LENGTH + length truncation_marker"
proof -
  have b: "on_data [] (replicate 10001 0x20) = replicate 10000 0x20 @ truncation_marker"
    by (simp add: on_data_def MAX_OUTPUT_LENGTH_def)
  have n: "lit ''... (output truncated)'' \<noteq> []"
    by simp
  show ?thesis
    by (simp add: on_close_def clearTimeout_def Let_def settled_resolve or_string_def b
          trim_spaces_marker n length_truncation_marker MAX_OUTPUT_LENGTH_def del: lit_Cons)
qed

text \<open>
  Claim C2, amended. When the text a process has written to a stream, stdout or stderr,
  is longer than the cap, that stream's buffer is the first 10,000 characters of the text
  followed by the truncation marker, and a further data event on the stream leaves it
  unchanged. When the process then closes while the promise is pending, the output field
  is the trimmed stdout buffer (after a nonzero exit, the error field is the trimmed
  stderr buffer): its length is at most the cap plus the length of the marker, and
  exactly that for an stdout text over the cap that does not begin with whitespace. An
  output field is never longer than the cap plus the length of the marker.
\<close>

theorem output_over_cap:
  assumes "st = run (executePython script penv start) es"
      and "settled st = None"
  shows "(length (concat (stdout_chunks es)) > MAX_OUTPUT_LENGTH \<longrightarrow>
            stdout st = take MAX_OUTPUT_LENGTH (concat (stdout_chunks es)) @ truncation_marker
          \<and> stdout (step (StdoutData chunk) st) = stdout st
          \<and> (\<exists>r. settled (step (Close code now) st) = Some r
                \<and> output_str r = Some (trim (stdout st))
                \<and> length (trim (stdout st)) \<le> MAX_OUTPUT_LENGTH + length truncation_marker
                \<and> (\<not> is_js_whitespace (hd (concat (stdout_chunks es))) \<longrightarrow>
                     length (trim (stdout st)) = MAX_OUTPUT_LENGTH + length truncation_marker)))
         \<and> (length (concat (stderr_chunks es)) > MAX_OUTPUT_LENGTH \<longrightarrow>
              stderr st = take MAX_OUTPUT_LENGTH (concat (stderr_chunks es)) @ truncation_marker
            \<and> stderr (step (StderrData chunk) st) = stderr st
            \<and> (code \<noteq> Some 0 \<longrightarrow>
                 (\<exists>r. settled (step (Close code now) st) = Some r
                    \<and> error r = Some (trim (stderr st))
                    \<and> length (trim (stderr st)) \<le> MAX_OUTPUT_LENGTH + length truncation_marker)))
         \<and> (\<forall>r out. settled (step (Close code now) st) = Some r \<and> output_str r = Some out \<longrightarrow>
               length out \<le> MAX_OUTPUT_LENGTH + length truncation_marker)"
proof (intro conjI impI allI)
  let ?out = "concat (stdout_chunks es)"
  let ?err = "concat (stderr_chunks es)"
  have so: "stdout st = capped ?out"
    using assms(1) by (simp add: stdout_executePython)
  have se: "stderr st = capped ?err"
    using assms(1) by (simp add: stderr_executePython)
  have lo: "length (trim (stdout st)) \<le> MAX_OUTPUT_LENGTH + length truncation_marker"
    using length_trim_le [of "stdout st"] length_capped_le [of ?out] so by simp
  have le: "length (trim (stderr st)) \<le> MAX_OUTPUT_LENGTH + length truncation_marker"
    using length_trim_le [of "stderr st"] length_capped_le [of ?err] se by simp
  from close_output [OF assms(2), of code now] obtain r0
    where r0: "settled (step (Close code now) st) = Some r0"
      "output_str r0 = (if code = Some 0
                               then Some (or_string (trim (stdout st)) (lit ''(no output)''))
                               else or_undefined (trim (stdout st)))"
      "code \<noteq> Some 0 \<longrightarrow>
                 error r0 = Some (or_string (trim (stderr st))
                                   (lit ''Process exited with code '' @ show_code code))"
    by blast
  {
    assume over: "length ?out > MAX_OUTPUT_LENGTH"
    show b: "stdout st = take MAX_OUTPUT_LENGTH ?out @ truncation_marker"
      using so over by (simp add: capped_over)
    show "stdout (step (StdoutData chunk) st) = stdout st"
      using over by (simp add: b on_data_truncated)
    have ne: "trim (stdout st) \<noteq> []"
      by (simp add: b trim_marked_not_Nil)
    have eq: "length (trim (stdout st)) = MAX_OUTPUT_LENGTH + length truncation_marker"
      if "\<not> is_js_whitespace (hd ?out)"
    proof -
      have "?out \<noteq> []"
        using over by (cases ?out) simp_all
      then have "take MAX_OUTPUT_LENGTH ?out \<noteq> []"
        by (simp add: MAX_OUTPUT_LENGTH_def del: concat_eq_Nil_conv)
      moreover have "hd (take MAX_OUTPUT_LENGTH ?out) = hd ?out"
        by (simp add: MAX_OUTPUT_LENGTH_def hd_take)
      ultimately have "trim (stdout st) = stdout st"
        using that by (simp add: b trim_marked_id)
      then show ?thesis
        using over by (simp add: b)
    qed
    have "output_str r0 = Some (trim (stdout st))"
      using r0(2) ne by (simp add: or_string_def or_undefined_def)
    with r0(1) lo eq
    show "\<exists>r. settled (step (Close code now) st) = Some r
                \<and> output_str r = Some (trim (stdout st))
                \<and> length (trim (stdout st)) \<le> MAX_OUTPUT_LENGTH + length truncation_marker
                \<and> (\<not> is_js_whitespace (hd ?out) \<longrightarrow>
                     length (trim (stdout st)) = MAX_OUTPUT_LENGTH + length truncation_marker)"
      by blast
  }
  {
    assume over: "length ?err > MAX_OUTPUT_LENGTH"
    show b: "stderr st = take MAX_OUTPUT_LENGTH ?err @ truncation_marker"
      using se over by (simp add: capped_over)
    show "stderr (step (StderrData chunk) st) = stderr st"
      using over by (simp add: b on_data_truncated)
    assume nz: "code \<noteq> Some 0"
    have ne: "trim (stderr st) \<noteq> []"
      by (simp add: b trim_marked_not_Nil)
    have "error r0 = Some (trim (stderr st))"
      using r0(3) nz ne by (simp add: or_string_def)
    with r0(1) le
    show "\<exists>r. settled (step (Close code now) st) = Some r
                    \<and> error r = Some (trim (stderr st))
                    \<and> length (trim (stderr st)) \<le> MAX_OUTPUT_LENGTH + length truncation_marker"
      by blast
  }
  {
    fix r out
    assume a: "settled (step (Close code now) st) = Some r \<and> output_str r = Some out"
    then have "r = r0"
      using r0(1) by simp
    then have "out = trim (stdout st) \<or> out = lit ''(no output)''"
      using a r0(2) by (auto simp: or_string_def or_undefined_def split: if_splits)
    then show "length out \<le> MAX_OUTPUT_LENGTH + length truncation_marker"
      using lo by (auto simp: MAX_OUTPUT_LENGTH_def)
  }
qed

theorem output_over_cap_witness:
  "settled (run (executePython (lit ''import sys'') Map.empty 0)
      [StdoutData (replicate 10001 0x61), StderrData (replicate 10001 0x62)]) = None
   \<and> length (concat (stdout_chunks [StdoutData (replicate 10001 0x61), StderrData (replicate 10001 0x62)]))
        > MAX_OUTPUT_LENGTH
   \<and> length (concat (stderr_chunks [StdoutData (replicate 10001 0x61), StderrData (replicate 10001 0x62)]))
        > MAX_OUTPUT_LENGTH
   \<and> \<not> is_js_whitespace
        (hd (concat (stdout_chunks [StdoutData (replicate 10001 0x61), StderrData (replicate 10001 0x62)])))
   \<and> Some (1::int) \<noteq> Some 0
   \<and> stdout (run (executePython (lit ''import sys'') Map.empty 0)
        [StdoutData (replicate 10001 0x61), StderrData (replicate 10001 0x62)])
       = replicate 10000 0x61 @ truncation_marker
   \<and> stderr (run (executePython (lit ''import sys'') Map.empty 0)
        [StdoutData (replicate 10001 0x61), StderrData (replicate 10001 0x62)])
       = replicate 10000 0x62 @ truncation_marker
   \<and> length (trim (stdout (run (executePython (lit ''import sys'') Map.empty 0)
        [StdoutData (replicate 10001 0x61), StderrData (replicate 10001 0x62)])))
       = MAX_OUTPUT_LENGTH + length truncation_marker"
proof -
  let ?es = "[StdoutData (replicate 10001 (0x61 :: js_char)), StderrData (replicate 10001 0x62)]"
  let ?st = "run (executePython (lit ''import sys'') Map.empty 0) ?es"
  have a: "settled ?st = None"
    by simp
  have b: "length (concat (stdout_chunks ?es)) > MAX_OUTPUT_LENGTH"
    by (simp add: MAX_OUTPUT_LENGTH_def)
  have b': "length (concat (stderr_chunks ?es)) > MAX_OUTPUT_LENGTH"
    by (simp add: MAX_OUTPUT_LENGTH_def)
  have c: "\<not> is_js_whitespace (hd (concat (stdout_chunks ?es)))"
    by (simp add: is_js_whitespace_def)
  have t: "take MAX_OUTPUT_LENGTH (concat (stdout_chunks ?es)) = replicate 10000 0x61"
    by (simp add: MAX_OUTPUT_LENGTH_def)
  have t': "take MAX_OUTPUT_LENGTH (concat (stderr_chunks ?es)) = replicate 10000 0x62"
    by (simp add: MAX_OUTPUT_LENGTH_def)
  note w = output_over_cap [OF refl a, where chunk = "[]" and code = "Some 1" and now = 5]
  from w [THEN conjunct1, rule_format, OF b] c
  have 1: "stdout ?st = take MAX_OUTPUT_LENGTH (concat (stdout_chunks ?es)) @ truncation_marker"
    and 2: "length (trim (stdout ?st)) = MAX_OUTPUT_LENGTH + length truncation_marker"
    by blast+
  from w [THEN conjunct2, THEN conjunct1, rule_format, OF b']
  have 3: "stderr ?st = take MAX_OUTPUT_LENGTH (concat (stderr_chunks ?es)) @ truncation_marker"
    by blast
  have n: "Some (1::int) \<noteq> Some 0"
    by simp
  from 1 2 3 a b b' c n show ?thesis
    by (simp only: t t' simp_thms)
qed

end
